theory Spec2Isabelle
  imports Main "HOL-Library.Char_ord" "HOL-Library.List_Lexorder" "HOL-Library.Multiset"
begin

section \<open>Strings and paths\<close>

text \<open>
  Python strings are modelled as \<open>string\<close> (a list of bytes, UTF-8). Comparing two such
  lists byte by byte gives the order Python's \<open>sorted\<close> uses on the code points.
\<close>

type_synonym path = string

text \<open>\<open>str.lower\<close>, on the ASCII letters (the only ones the extensions contain).\<close>

definition lower_char :: "char \<Rightarrow> char" where
  "lower_char c =
     (case map_of (zip ''ABCDEFGHIJKLMNOPQRSTUVWXYZ'' ''abcdefghijklmnopqrstuvwxyz'') c of
        Some d \<Rightarrow> d
      | None \<Rightarrow> c)"

definition lower :: "string \<Rightarrow> string" where
  "lower s = map lower_char s"

text \<open>\<open>s.endswith(t)\<close> for one suffix, and for a tuple of suffixes.\<close>

definition endswith :: "string \<Rightarrow> string \<Rightarrow> bool" where
  "endswith s t = (length t \<le> length s \<and> drop (length s - length t) s = t)"

definition endswith_any :: "string \<Rightarrow> string list \<Rightarrow> bool" where
  "endswith_any s ts = list_ex (endswith s) ts"

text \<open>
  \<open>os.path.join(a, b)\<close> of posixpath: an absolute \<open>b\<close> replaces \<open>a\<close>; otherwise
  one separator stands between them unless \<open>a\<close> is empty or ends with one.
\<close>

definition sep :: char where
  "sep = CHR ''/''"

definition path_join :: "path \<Rightarrow> path \<Rightarrow> path" where
  "path_join a b =
     (if b \<noteq> [] \<and> hd b = sep then b
      else if a = [] \<or> last a = sep then a @ b
      else a @ [sep] @ b)"

text \<open>\<open>os.path.basename(p)\<close>: what follows the last separator.\<close>

definition basename :: "path \<Rightarrow> string" where
  "basename p = rev (takeWhile (\<lambda>c. c \<noteq> sep) (rev p))"

section \<open>Directory Scanner\<close>

definition supported_formats :: "string list" where
  "supported_formats = [''.jpg'', ''.jpeg'', ''.png'', ''.bmp'', ''.tiff'', ''.webp'']"

text \<open>
  The loop of \<open>get_image_files\<close> over the names \<open>os.listdir\<close> returned, followed by
  \<open>sorted\<close>.
\<close>

fun collect_images :: "path \<Rightarrow> string list \<Rightarrow> path list \<Rightarrow> path list" where
  "collect_images folder_path [] image_files = image_files"
| "collect_images folder_path (filename # rest) image_files =
     (if endswith_any (lower filename) supported_formats
      then collect_images folder_path rest (image_files @ [path_join folder_path filename])
      else collect_images folder_path rest image_files)"

section \<open>The filesystem and the console\<close>

text \<open>
  The program acts on the filesystem through \<open>os\<close> and \<open>shutil\<close> and on the console
  through \<open>print\<close>. The filesystem is a tree: a regular file holds its bytes, a directory
  holds its named entries. A path names a node by its components; the working directory is
  the root, there are no links and no permissions.
\<close>

type_synonym bytes = "nat list"

datatype node = File bytes | Dir "(string \<times> node) list"

datatype error =
    FileNotFoundError
  | FileExistsError
  | IsADirectoryError
  | NotADirectoryError
  | ZeroDivisionError
  | UnidentifiedImageError
  | OSError string

fun split_sep :: "string \<Rightarrow> string list" where
  "split_sep [] = [[]]"
| "split_sep (c # cs) =
     (if c = sep then [] # split_sep cs
      else (case split_sep cs of [] \<Rightarrow> [[c]] | x # xs \<Rightarrow> (c # x) # xs))"

definition components :: "path \<Rightarrow> string list" where
  "components p = filter (\<lambda>c. c \<noteq> [] \<and> c \<noteq> ''.'') (split_sep p)"

fun lookup :: "string list \<Rightarrow> node \<Rightarrow> node option" where
  "lookup [] n = Some n"
| "lookup (c # cs) (File bs) = None"
| "lookup (c # cs) (Dir es) =
     (case map_of es c of None \<Rightarrow> None | Some m \<Rightarrow> lookup cs m)"

text \<open>Replacing or adding the entry \<open>c\<close> of a directory listing.\<close>

fun set_entry :: "string \<Rightarrow> node \<Rightarrow> (string \<times> node) list \<Rightarrow> (string \<times> node) list" where
  "set_entry c m [] = [(c, m)]"
| "set_entry c m ((k, v) # es) =
     (if k = c then (c, m) # es else (k, v) # set_entry c m es)"

text \<open>
  \<open>alter cs f n\<close> rewrites the entry that the components \<open>cs\<close> name below \<open>n\<close>:
  \<open>f\<close> sees what is there (\<open>None\<close> when the name is free) and gives the new node or
  the error to raise. Every directory on the way must exist.
\<close>

fun alter :: "string list \<Rightarrow> (node option \<Rightarrow> error + node) \<Rightarrow> node \<Rightarrow> error + node" where
  "alter [] f n = f (Some n)"
| "alter (c # cs) f (File bs) = Inl NotADirectoryError"
| "alter [c] f (Dir es) =
     (case f (map_of es c) of
        Inl e \<Rightarrow> Inl e
      | Inr m \<Rightarrow> Inr (Dir (set_entry c m es)))"
| "alter (c # c' # cs) f (Dir es) =
     (case map_of es c of
        None \<Rightarrow> Inl FileNotFoundError
      | Some m \<Rightarrow>
          (case alter (c' # cs) f m of
             Inl e \<Rightarrow> Inl e
           | Inr m' \<Rightarrow> Inr (Dir (set_entry c m' es))))"

text \<open>\<open>os.path.exists\<close>, \<open>os.path.isdir\<close>, \<open>os.listdir\<close>, \<open>os.path.getsize\<close>.\<close>

definition path_exists :: "node \<Rightarrow> path \<Rightarrow> bool" where
  "path_exists r p = (p \<noteq> [] \<and> lookup (components p) r \<noteq> None)"

definition isdir :: "node \<Rightarrow> path \<Rightarrow> bool" where
  "isdir r p =
     (p \<noteq> [] \<and> (case lookup (components p) r of Some (Dir es) \<Rightarrow> True | _ \<Rightarrow> False))"

definition listdir :: "node \<Rightarrow> path \<Rightarrow> error + string list" where
  "listdir r p =
     (if p = [] then Inl FileNotFoundError
      else (case lookup (components p) r of
              None \<Rightarrow> Inl FileNotFoundError
            | Some (File bs) \<Rightarrow> Inl NotADirectoryError
            | Some (Dir es) \<Rightarrow> Inr (map fst es)))"

definition getsize :: "node \<Rightarrow> path \<Rightarrow> error + int" where
  "getsize r p =
     (if p = [] then Inl FileNotFoundError
      else (case lookup (components p) r of
              None \<Rightarrow> Inl FileNotFoundError
            | Some (File bs) \<Rightarrow> Inr (int (length bs))
            | Some (Dir es) \<Rightarrow> Inr 4096))"

text \<open>Reading a file's bytes, and writing a file (\<open>open(p, 'rb')\<close>, \<open>open(p, 'wb')\<close>).\<close>

definition read_file :: "node \<Rightarrow> path \<Rightarrow> error + bytes" where
  "read_file r p =
     (if p = [] then Inl FileNotFoundError
      else (case lookup (components p) r of
              None \<Rightarrow> Inl FileNotFoundError
            | Some (File bs) \<Rightarrow> Inr bs
            | Some (Dir es) \<Rightarrow> Inl IsADirectoryError))"

definition put_file :: "bytes \<Rightarrow> node option \<Rightarrow> error + node" where
  "put_file bs old =
     (case old of Some (Dir es) \<Rightarrow> Inl IsADirectoryError | _ \<Rightarrow> Inr (File bs))"

definition write_file :: "node \<Rightarrow> path \<Rightarrow> bytes \<Rightarrow> error + node" where
  "write_file r p bs =
     (if p = [] then Inl FileNotFoundError else alter (components p) (put_file bs) r)"

text \<open>
  \<open>shutil.copy2(src, dst)\<close>: a destination that is a directory receives the file under
  the source's name. Metadata is not part of the model.
\<close>

definition copy2 :: "node \<Rightarrow> path \<Rightarrow> path \<Rightarrow> error + node" where
  "copy2 r src dst =
     (let dst' = (if isdir r dst then path_join dst (basename src) else dst)
      in case read_file r src of
           Inl e \<Rightarrow> Inl e
         | Inr bs \<Rightarrow> write_file r dst' bs)"

text \<open>
  \<open>os.makedirs(name, exist_ok=True)\<close>: the directories that exist on the way are entered,
  the missing ones are created, and a regular file in the way is an error.
\<close>

fun make_dirs :: "string list \<Rightarrow> node \<Rightarrow> error + node" where
  "make_dirs [] (Dir es) = Inr (Dir es)"
| "make_dirs [] (File bs) = Inl FileExistsError"
| "make_dirs (c # cs) (File bs) = Inl NotADirectoryError"
| "make_dirs (c # cs) (Dir es) =
     (case make_dirs cs (case map_of es c of None \<Rightarrow> Dir [] | Some m \<Rightarrow> m) of
        Inl e \<Rightarrow> Inl e
      | Inr m' \<Rightarrow> Inr (Dir (set_entry c m' es)))"

definition makedirs :: "node \<Rightarrow> path \<Rightarrow> error + node" where
  "makedirs r name =
     (if name = [] then Inl FileNotFoundError else make_dirs (components name) r)"

text \<open>
  One constructor for each \<open>print\<close> statement of the program, holding the values the
  statement formats. The kilobytes, megabytes and percentages a line shows are computed
  from the byte counts it holds.
\<close>

datatype line =
    Resized string int int int int
  | Compressed string int int
  | ErrorProcessing string error
  | PhotosFolderNotFound path
  | NotADirectory path
  | NoImageFilesFound path
  | SupportedFormats
  | StartingCompression
  | InputFolder path
  | BackupFolder path
  | ReducedFolder path
  | Settings int int int
  | FoundImages int
  | Separator
  | CreatedBackup string
  | ProcessingComplete
  | ImagesProcessed int
  | TotalReduction int int
  | BackedUpIn path
  | SavedIn path

record world =
  root :: node
  out :: "line list"

definition print :: "line \<Rightarrow> world \<Rightarrow> world" where
  "print l w = w\<lparr>out := out w @ [l]\<rparr>"

definition prints :: "line list \<Rightarrow> world \<Rightarrow> world" where
  "prints ls w = w\<lparr>out := out w @ ls\<rparr>"

section \<open>The image library\<close>

text \<open>
  An image as Pillow holds it: the mode (\<open>RGB\<close>, \<open>RGBA\<close>, \<open>P\<close>, \<open>L\<close>, \<open>LA\<close>, ...),
  the size in pixels (width, height) and the raster.
\<close>

record image =
  mode :: string
  img_size :: "int \<times> int"
  pixels :: "nat list"

text \<open>
  What the codecs and filters of Pillow compute is not part of this program; the model
  takes them as parameters. Each may raise. \<open>convert\<close> gives an image of the mode asked
  for and of the same size, the raster being the parameter.
\<close>

record pil =
  decode :: "bytes \<Rightarrow> error + image"
  exif_transpose :: "image \<Rightarrow> error + image"
  convert_pixels :: "string \<Rightarrow> string \<Rightarrow> nat list \<Rightarrow> nat list"
  thumbnail :: "image \<Rightarrow> int \<times> int \<Rightarrow> error + image"
  encode :: "image \<Rightarrow> string \<Rightarrow> int \<Rightarrow> error + bytes"

definition Image_open :: "pil \<Rightarrow> node \<Rightarrow> path \<Rightarrow> error + image" where
  "Image_open P r p =
     (case read_file r p of Inl e \<Rightarrow> Inl e | Inr bs \<Rightarrow> decode P bs)"

definition convert :: "pil \<Rightarrow> image \<Rightarrow> string \<Rightarrow> image" where
  "convert P img m =
     img\<lparr>mode := m, pixels := convert_pixels P (mode img) m (pixels img)\<rparr>"

text \<open>\<open>img.save(path, format, quality=quality, optimize=True)\<close>\<close>

definition save :: "pil \<Rightarrow> image \<Rightarrow> path \<Rightarrow> string \<Rightarrow> int \<Rightarrow> node \<Rightarrow> error + node" where
  "save P img p fmt quality r =
     (case encode P img fmt quality of
        Inl e \<Rightarrow> Inl e
      | Inr bs \<Rightarrow> write_file r p bs)"

section \<open>Image Transform\<close>

text \<open>Lines 22 and 23 of \<open>reduce_image_size\<close>.\<close>

definition normalize_color :: "pil \<Rightarrow> image \<Rightarrow> image" where
  "normalize_color P img =
     (if mode img \<in> set [''RGBA'', ''P''] then convert P img ''RGB'' else img)"

text \<open>Lines 25 to 29: the conditional \<open>thumbnail\<close> and its report.\<close>

definition resize_step ::
  "pil \<Rightarrow> path \<Rightarrow> int \<Rightarrow> int \<Rightarrow> image \<Rightarrow> world \<Rightarrow> error + image \<times> world" where
  "resize_step P image_path max_width max_height img w =
     (let original_width = fst (img_size img); original_height = snd (img_size img)
      in if original_width > max_width \<or> original_height > max_height
         then (case thumbnail P img (max_width, max_height) of
                 Inl e \<Rightarrow> Inl e
               | Inr img' \<Rightarrow>
                   Inr (img', print (Resized (basename image_path) original_width
                                      original_height (fst (img_size img'))
                                      (snd (img_size img'))) w))
         else Inr (img, w))"

text \<open>Lines 31 to 40: measure, save as JPEG, measure, report.\<close>

definition save_and_measure ::
  "pil \<Rightarrow> path \<Rightarrow> path \<Rightarrow> int \<Rightarrow> image \<Rightarrow> world \<Rightarrow> (error + int \<times> int) \<times> world" where
  "save_and_measure P image_path output_path quality img w =
     (case getsize (root w) image_path of
        Inl e \<Rightarrow> (Inl e, w)
      | Inr original_size \<Rightarrow>
          (case save P img output_path ''JPEG'' quality (root w) of
             Inl e \<Rightarrow> (Inl e, w)
           | Inr r' \<Rightarrow>
               (case getsize r' output_path of
                  Inl e \<Rightarrow> (Inl e, w\<lparr>root := r'\<rparr>)
                | Inr new_size \<Rightarrow>
                    if original_size = 0 then (Inl ZeroDivisionError, w\<lparr>root := r'\<rparr>)
                    else (Inr (original_size, new_size),
                          print (Compressed (basename image_path) original_size new_size)
                            (w\<lparr>root := r'\<rparr>)))))"

text \<open>The body of the \<open>try\<close> of \<open>reduce_image_size\<close>: \<open>Inl\<close> is the exception raised.\<close>

definition reduce_image_size_try ::
  "pil \<Rightarrow> path \<Rightarrow> path \<Rightarrow> int \<Rightarrow> int \<Rightarrow> int \<Rightarrow> world \<Rightarrow> (error + int \<times> int) \<times> world" where
  "reduce_image_size_try P image_path output_path quality max_width max_height w =
     (case Image_open P (root w) image_path of
        Inl e \<Rightarrow> (Inl e, w)
      | Inr img0 \<Rightarrow>
          (case exif_transpose P img0 of
             Inl e \<Rightarrow> (Inl e, w)
           | Inr img1 \<Rightarrow>
               (case resize_step P image_path max_width max_height
                       (normalize_color P img1) w of
                  Inl e \<Rightarrow> (Inl e, w)
                | Inr (img2, w1) \<Rightarrow>
                    save_and_measure P image_path output_path quality img2 w1)))"

text \<open>\<open>reduce_image_size\<close>: the \<open>except Exception\<close> reports and returns \<open>(0, 0)\<close>.\<close>

definition reduce_image_size ::
  "pil \<Rightarrow> path \<Rightarrow> path \<Rightarrow> int \<Rightarrow> int \<Rightarrow> int \<Rightarrow> world \<Rightarrow> (int \<times> int) \<times> world" where
  "reduce_image_size P image_path output_path quality max_width max_height w =
     (case reduce_image_size_try P image_path output_path quality max_width max_height w of
        (Inl e, w') \<Rightarrow> ((0, 0), print (ErrorProcessing image_path e) w')
      | (Inr sizes, w') \<Rightarrow> (sizes, w'))"

section \<open>Directory Scanner and Folder Provisioner on the filesystem\<close>

definition get_image_files :: "node \<Rightarrow> path \<Rightarrow> error + path list" where
  "get_image_files r folder_path =
     (case listdir r folder_path of
        Inl e \<Rightarrow> Inl e
      | Inr names \<Rightarrow> Inr (sort (collect_images folder_path names [])))"

definition create_folders :: "node \<Rightarrow> path \<Rightarrow> error + (path \<times> path) \<times> node" where
  "create_folders r base_path =
     (let backup_folder = path_join base_path ''backup'';
          reduced_folder = path_join base_path ''reduced''
      in case makedirs r backup_folder of
           Inl e \<Rightarrow> Inl e
         | Inr r1 \<Rightarrow>
             (case makedirs r1 reduced_folder of
                Inl e \<Rightarrow> Inl e
              | Inr r2 \<Rightarrow> Inr ((backup_folder, reduced_folder), r2)))"

section \<open>Batch Driver\<close>

definition QUALITY :: int where "QUALITY = 85"
definition MAX_WIDTH :: int where "MAX_WIDTH = 1200"
definition MAX_HEIGHT :: int where "MAX_HEIGHT = 1200"

record totals =
  processed_count :: int
  total_original_size :: int
  total_new_size :: int

text \<open>Lines 142 to 145.\<close>

definition accumulate :: "totals \<Rightarrow> int \<times> int \<Rightarrow> totals" where
  "accumulate t sizes =
     (let original_size = fst sizes; new_size = snd sizes
      in if original_size > 0 \<and> new_size > 0
         then t\<lparr>total_original_size := total_original_size t + original_size,
                total_new_size := total_new_size t + new_size,
                processed_count := processed_count t + 1\<rparr>
         else t)"

text \<open>The body of the \<open>for\<close> loop, lines 126 to 148.\<close>

definition process_file ::
  "pil \<Rightarrow> path \<Rightarrow> path \<Rightarrow> path \<Rightarrow> totals \<times> world \<Rightarrow> totals \<times> world" where
  "process_file P backup_folder reduced_folder image_path st =
     (let t = fst st; w = snd st;
          filename = basename image_path;
          backup_path = path_join backup_folder filename;
          reduced_path = path_join reduced_folder filename
      in case copy2 (root w) image_path backup_path of
           Inl e \<Rightarrow> (t, print (ErrorProcessing filename e) w)
         | Inr r1 \<Rightarrow>
             (let w1 = print (CreatedBackup filename) (w\<lparr>root := r1\<rparr>);
                  res = reduce_image_size P image_path reduced_path
                          QUALITY MAX_WIDTH MAX_HEIGHT w1
              in (accumulate t (fst res), snd res)))"

fun process_all ::
  "pil \<Rightarrow> path \<Rightarrow> path \<Rightarrow> path list \<Rightarrow> totals \<times> world \<Rightarrow> totals \<times> world" where
  "process_all P backup_folder reduced_folder [] st = st"
| "process_all P backup_folder reduced_folder (image_path # rest) st =
     process_all P backup_folder reduced_folder rest
       (process_file P backup_folder reduced_folder image_path st)"

text \<open>
  \<open>main\<close>; \<open>script_dir\<close> is the directory of the script. An exception of the scanner or
  of the provisioner is not caught and ends the run (\<open>Inl\<close>).
\<close>

definition main :: "pil \<Rightarrow> path \<Rightarrow> world \<Rightarrow> error + world" where
  "main P script_dir w =
     (let input_folder = path_join script_dir ''photos''
      in if \<not> path_exists (root w) input_folder
         then Inr (print (PhotosFolderNotFound input_folder) w)
         else if \<not> isdir (root w) input_folder
         then Inr (print (NotADirectory input_folder) w)
         else (case get_image_files (root w) input_folder of
                 Inl e \<Rightarrow> Inl e
               | Inr image_files \<Rightarrow>
                   if image_files = []
                   then Inr (prints [NoImageFilesFound input_folder, SupportedFormats] w)
                   else (case create_folders (root w) script_dir of
                           Inl e \<Rightarrow> Inl e
                         | Inr (folders, r1) \<Rightarrow>
                             (let backup_folder = fst folders;
                                  reduced_folder = snd folders;
                                  w1 = prints [StartingCompression, InputFolder input_folder,
                                         BackupFolder backup_folder,
                                         ReducedFolder reduced_folder,
                                         Settings QUALITY MAX_WIDTH MAX_HEIGHT,
                                         FoundImages (int (length image_files)), Separator]
                                         (w\<lparr>root := r1\<rparr>);
                                  st = process_all P backup_folder reduced_folder image_files
                                         (\<lparr>processed_count = 0, total_original_size = 0,
                                           total_new_size = 0\<rparr>, w1);
                                  t = fst st;
                                  w2 = prints [Separator, ProcessingComplete,
                                         ImagesProcessed (processed_count t)] (snd st)
                              in Inr (if processed_count t > 0
                                      then prints [TotalReduction (total_original_size t)
                                                     (total_new_size t),
                                                   BackedUpIn backup_folder,
                                                   SavedIn reduced_folder] w2
                                      else w2)))))"

section \<open>What the claims speak of\<close>

text \<open>
  The words of the specification for the scanner: a name has a supported extension when,
  in lower case, it is some stem followed by a dot and one of the six extensions.
\<close>

definition image_extensions :: "string list" where
  "image_extensions = [''jpg'', ''jpeg'', ''png'', ''bmp'', ''tiff'', ''webp'']"

definition has_image_extension :: "string \<Rightarrow> bool" where
  "has_image_extension name =
     (\<exists>ext\<in>set image_extensions. \<exists>stem. lower name = stem @ ''.'' @ ext)"

text \<open>The modes of Pillow that carry an alpha channel.\<close>

definition has_alpha :: "string \<Rightarrow> bool" where
  "has_alpha m = (m \<in> set [''RGBA'', ''LA'', ''PA'', ''RGBa'', ''La''])"

text \<open>
  The aspect ratio is kept within one pixel of rounding: changing the width of the result
  by less than a pixel, or its height by less than a pixel, gives the ratio of the
  original exactly.
\<close>

definition aspect_within_pixel :: "int \<times> int \<Rightarrow> int \<times> int \<Rightarrow> bool" where
  "aspect_within_pixel original result =
     (let wd = fst original; ht = snd original; x = fst result; y = snd result
      in \<bar>x * ht - y * wd\<bar> < ht \<or> \<bar>y * wd - x * ht\<bar> < wd)"

text \<open>
  What Pillow documents of \<open>Image.thumbnail\<close>: for an image and a box of positive
  sizes, the result is no larger than the box and keeps the aspect ratio of the image.
\<close>

definition thumbnail_contract :: "pil \<Rightarrow> bool" where
  "thumbnail_contract P =
     (\<forall>img bw bh img'.
        0 < fst (img_size img) \<and> 0 < snd (img_size img) \<and> 0 < bw \<and> 0 < bh
        \<and> thumbnail P img (bw, bh) = Inr img'
        \<longrightarrow> fst (img_size img') \<le> bw \<and> snd (img_size img') \<le> bh
            \<and> aspect_within_pixel (img_size img) (img_size img'))"

text \<open>
  What one file of the run comes to: the exception of the backup copy or of the transform
  (\<open>Inl\<close>), or the sizes the transform returns when both steps went through.
\<close>

definition attempt :: "pil \<Rightarrow> path \<Rightarrow> path \<Rightarrow> path \<Rightarrow> world \<Rightarrow> error + int \<times> int" where
  "attempt P backup_folder reduced_folder image_path w =
     (case copy2 (root w) image_path (path_join backup_folder (basename image_path)) of
        Inl e \<Rightarrow> Inl e
      | Inr r1 \<Rightarrow>
          fst (reduce_image_size_try P image_path
                 (path_join reduced_folder (basename image_path))
                 QUALITY MAX_WIDTH MAX_HEIGHT
                 (print (CreatedBackup (basename image_path)) (w\<lparr>root := r1\<rparr>))))"

definition empty_totals :: totals where
  "empty_totals = \<lparr>processed_count = 0, total_original_size = 0, total_new_size = 0\<rparr>"

text \<open>The outcomes of the files of a run, each in the world its predecessors left.\<close>

fun run_outcomes ::
  "pil \<Rightarrow> path \<Rightarrow> path \<Rightarrow> path list \<Rightarrow> world \<Rightarrow> (error + int \<times> int) list" where
  "run_outcomes P backup_folder reduced_folder [] w = []"
| "run_outcomes P backup_folder reduced_folder (image_path # rest) w =
     attempt P backup_folder reduced_folder image_path w
       # run_outcomes P backup_folder reduced_folder rest
           (snd (process_file P backup_folder reduced_folder image_path (empty_totals, w)))"

fun contributions :: "(error + int \<times> int) list \<Rightarrow> (int \<times> int) list" where
  "contributions [] = []"
| "contributions (Inl e # os) = contributions os"
| "contributions (Inr s # os) = s # contributions os"

text \<open>An encoder never gives an empty file: a JPEG stream starts with its marker.\<close>

definition nonempty_output :: "pil \<Rightarrow> bool" where
  "nonempty_output P = (\<forall>img fmt q bs. encode P img fmt q = Inr bs \<longrightarrow> bs \<noteq> [])"

section \<open>A small codec and filesystem for evaluation\<close>

text \<open>
  A stand-in for the codecs, to run the model on concrete inputs: a file is a mode index,
  a width, a height and the raster; the encoder accepts the modes Pillow's JPEG plugin
  writes and refuses the others. \<open>blank_pil\<close> differs in its encoder, which gives an
  empty file.
\<close>

definition toy_modes :: "string list" where
  "toy_modes = [''RGB'', ''RGBA'', ''P'', ''L'', ''LA'']"

definition toy_decode :: "bytes \<Rightarrow> error + image" where
  "toy_decode bs =
     (case bs of
        m # wd # ht # px \<Rightarrow>
          (if m < length toy_modes
           then Inr \<lparr>mode = toy_modes ! m, img_size = (int wd, int ht), pixels = px\<rparr>
           else Inl UnidentifiedImageError)
      | _ \<Rightarrow> Inl UnidentifiedImageError)"

text \<open>
  The size \<open>Image.thumbnail\<close> of Pillow computes, in exact arithmetic: an image that
  fits the box is left alone; otherwise the side that the box does not limit is the ideal
  one rounded down or up, whichever ratio is nearer (down on a tie), and at least one.
  Sizes that are not positive are refused.
\<close>

definition toy_thumbnail :: "image \<Rightarrow> int \<times> int \<Rightarrow> error + image" where
  "toy_thumbnail img box =
     (let wd = fst (img_size img); ht = snd (img_size img); x = fst box; y = snd box
      in if x \<ge> wd \<and> y \<ge> ht then Inr img
         else if wd \<le> 0 \<or> ht \<le> 0 \<or> x \<le> 0 \<or> y \<le> 0 then Inl ZeroDivisionError
         else if x * ht \<ge> wd * y
         then (let lo = (y * wd) div ht; hi = - ((- (y * wd)) div ht);
                   n = (if \<bar>wd * y - lo * ht\<bar> \<le> \<bar>wd * y - hi * ht\<bar> then lo else hi)
               in Inr (img\<lparr>img_size := (max n 1, y)\<rparr>))
         else (let lo = (x * ht) div wd; hi = - ((- (x * ht)) div wd);
                   n = (if lo = 0 \<or> \<bar>wd * lo - x * ht\<bar> * hi \<le> \<bar>wd * hi - x * ht\<bar> * lo
                        then lo else hi)
               in Inr (img\<lparr>img_size := (x, max n 1)\<rparr>)))"

definition jpeg_rawmodes :: "string list" where
  "jpeg_rawmodes = [''1'', ''L'', ''RGB'', ''RGBX'', ''CMYK'', ''YCbCr'']"

definition toy_encode :: "image \<Rightarrow> string \<Rightarrow> int \<Rightarrow> error + bytes" where
  "toy_encode img fmt quality =
     (if fmt = ''JPEG'' \<and> mode img \<in> set jpeg_rawmodes
      then Inr (255 # 216 # pixels img)
      else Inl (OSError ''cannot write mode''))"

definition toy_pil :: pil where
  "toy_pil = \<lparr>decode = toy_decode, exif_transpose = Inr,
              convert_pixels = (\<lambda>from_mode to_mode px. px),
              thumbnail = toy_thumbnail, encode = toy_encode\<rparr>"

definition blank_pil :: pil where
  "blank_pil = toy_pil\<lparr>encode := (\<lambda>img fmt quality. Inr [])\<rparr>"

text \<open>
  \<open>turned_pil\<close> differs in \<open>exif_transpose\<close>: it is the codec on files whose
  orientation tag asks for a quarter turn, which exchanges width and height.
\<close>

definition quarter_turn :: "image \<Rightarrow> error + image" where
  "quarter_turn img = Inr (img\<lparr>img_size := (snd (img_size img), fst (img_size img))\<rparr>)"

definition turned_pil :: pil where
  "turned_pil = toy_pil\<lparr>exif_transpose := quarter_turn\<rparr>"

definition photos_dir :: node where
  "photos_dir = Dir [(''a.png'', File [1, 3, 2, 7, 7, 7]),
                     (''album.jpg'', Dir []),
                     (''grey.PNG'', File [4, 2, 2, 5, 5]),
                     (''notes.txt'', File [9])]"

definition fresh_root :: node where
  "fresh_root = Dir [(''app'', Dir [(''photos'', photos_dir)])]"

definition provisioned_root :: node where
  "provisioned_root =
     Dir [(''app'', Dir [(''photos'', photos_dir), (''backup'', Dir []), (''reduced'', Dir [])])]"

definition tall_root :: node where
  "tall_root =
     Dir [(''app'', Dir [(''photos'', Dir [(''tall.jpg'', File [0, 4, 8, 7, 7, 7])]),
                         (''backup'', Dir []), (''reduced'', Dir [])])]"

definition empty_photos_root :: node where
  "empty_photos_root = Dir [(''app'', Dir [(''photos'', Dir [])])]"

section \<open>Unfolding the model\<close>

lemmas path_defs = path_join_def basename_def components_def sep_def

lemmas os_defs = path_exists_def isdir_def listdir_def getsize_def read_file_def
  write_file_def put_file_def copy2_def makedirs_def

lemmas scan_defs = get_image_files_def endswith_any_def endswith_def lower_def lower_char_def
  supported_formats_def

lemmas toy_defs = toy_pil_def blank_pil_def turned_pil_def quarter_turn_def toy_decode_def
  toy_thumbnail_def toy_encode_def toy_modes_def jpeg_rawmodes_def

lemmas world_defs = photos_dir_def fresh_root_def provisioned_root_def empty_photos_root_def
  tall_root_def

lemmas transform_defs = reduce_image_size_def reduce_image_size_try_def save_and_measure_def
  resize_step_def normalize_color_def convert_def save_def Image_open_def print_def prints_def

lemmas driver_defs = process_file_def accumulate_def QUALITY_def MAX_WIDTH_def MAX_HEIGHT_def
  attempt_def empty_totals_def create_folders_def main_def

section \<open>Paths and the filesystem\<close>

lemma map_of_set_entry:
  "map_of (set_entry c m es) d = (if d = c then Some m else map_of es d)"
  by (induction es) auto

lemma set_entry_same: "map_of es c = Some m \<Longrightarrow> set_entry c m es = es"
  by (induction es) (auto split: if_splits)

lemma make_dirs_existing:
  "lookup cs n = Some (Dir es) \<Longrightarrow> make_dirs cs n = Inr n"
proof (induction cs arbitrary: n)
  case Nil
  then show ?case by simp
next
  case (Cons c cs)
  then show ?case
    by (cases n) (auto split: option.splits simp: set_entry_same)
qed

lemma make_dirs_result:
  "make_dirs cs n = Inr n' \<Longrightarrow> \<exists>es. lookup cs n' = Some (Dir es)"
proof (induction cs arbitrary: n n')
  case Nil
  then show ?case by (cases n) auto
next
  case (Cons c cs)
  then show ?case
    by (cases n) (auto split: sum.splits simp: map_of_set_entry)
qed

lemma make_dirs_keeps_dirs:
  "make_dirs cs n = Inr n' \<Longrightarrow> lookup ds n = Some (Dir es) \<Longrightarrow>
   \<exists>es'. lookup ds n' = Some (Dir es')"
proof (induction cs arbitrary: n n' ds es)
  case Nil
  then show ?case by (cases n) auto
next
  case (Cons c cs)
  show ?case
  proof (cases ds)
    case Nil
    with Cons.prems show ?thesis by (cases n) (auto split: sum.splits)
  next
    case (Cons d ds')
    with Cons.prems Cons.IH show ?thesis
      by (cases n) (auto split: sum.splits option.splits simp: map_of_set_entry)
  qed
qed

lemma alter_result:
  "alter cs f n = Inr n' \<Longrightarrow> \<exists>m. f (lookup cs n) = Inr m \<and> lookup cs n' = Some m"
proof (induction cs f n arbitrary: n' rule: alter.induct)
  case (1 f n)
  then show ?case by simp
next
  case (2 c cs f bs)
  then show ?case by simp
next
  case (3 c f es)
  then show ?case
    by (auto split: sum.splits option.splits simp: map_of_set_entry)
next
  case (4 c c' cs f es)
  then show ?case
    by (auto split: sum.splits option.splits simp: map_of_set_entry)
qed

lemma write_file_read:
  "write_file r p bs = Inr r' \<Longrightarrow> read_file r' p = Inr bs"
  by (auto simp: write_file_def read_file_def put_file_def
           split: if_splits option.splits node.splits dest!: alter_result)

lemma write_file_getsize:
  "write_file r p bs = Inr r' \<Longrightarrow> getsize r' p = Inr (int (length bs))"
  by (auto simp: write_file_def getsize_def put_file_def
           split: if_splits option.splits node.splits dest!: alter_result)

lemma getsize_nonneg: "getsize r p = Inr n \<Longrightarrow> 0 \<le> n"
  by (auto simp: getsize_def split: if_splits option.splits node.splits)

lemma basename_no_sep: "sep \<notin> set (basename p)"
proof -
  have "sep \<notin> set (takeWhile (\<lambda>c. c \<noteq> sep) (rev p))"
    by (auto dest: set_takeWhileD)
  then show ?thesis by (simp add: basename_def)
qed

lemma basename_append_sep:
  "sep \<notin> set b \<Longrightarrow> basename (a @ sep # b) = b"
proof -
  have "takeWhile (\<lambda>c. c \<noteq> sep) (rev b @ sep # rev a) = rev b"
    if "sep \<notin> set b"
    using that by (subst takeWhile_append2) auto
  then show "sep \<notin> set b \<Longrightarrow> basename (a @ sep # b) = b"
    by (simp add: basename_def)
qed

lemma basename_path_join:
  assumes "sep \<notin> set b"
  shows "basename (path_join a b) = b"
proof -
  have nb: "takeWhile (\<lambda>c. c \<noteq> sep) (rev b) = rev b"
    using assms by (auto simp: takeWhile_eq_all_conv)
  have hdb: "b \<noteq> [] \<Longrightarrow> hd b \<noteq> sep"
    using assms by (cases b) auto
  show ?thesis
  proof (cases "a = [] \<or> last a = sep")
    case False
    then show ?thesis
      using assms hdb by (auto simp: path_join_def basename_append_sep)
  next
    case True
    show ?thesis
    proof (cases "a = []")
      case True
      then show ?thesis using hdb by (auto simp: path_join_def basename_def nb)
    next
      case False
      with True obtain a' where a: "a = a' @ [sep]"
        by (metis append_butlast_last_id)
      then show ?thesis
        using assms hdb by (auto simp: path_join_def basename_append_sep)
    qed
  qed
qed

lemma path_join_nonempty: "b \<noteq> [] \<Longrightarrow> path_join a b \<noteq> []"
  by (simp add: path_join_def)

lemma split_sep_nonempty: "split_sep s \<noteq> []"
  by (induction s) (auto split: list.splits)

lemma split_sep_append: "split_sep (a @ sep # b) = split_sep a @ split_sep b"
proof (induction a)
  case Nil
  show ?case by simp
next
  case (Cons c a)
  then show ?case
    using split_sep_nonempty[of a] by (auto split: list.splits)
qed

lemma split_sep_plain: "sep \<notin> set b \<Longrightarrow> split_sep b = [b]"
  by (induction b) auto

lemma components_path_join:
  assumes "sep \<notin> set b" "b \<noteq> []" "b \<noteq> ''.''"
  shows "components (path_join a b) = components a @ [b]"
proof -
  have hdb: "hd b \<noteq> sep" using assms(1,2) by (cases b) auto
  show ?thesis
  proof (cases "a = []")
    case True
    then show ?thesis
      using assms hdb by (simp add: path_join_def components_def split_sep_plain)
  next
    case False
    show ?thesis
    proof (cases "last a = sep")
      case True
      with False obtain a' where a: "a = a' @ [sep]"
        by (metis append_butlast_last_id)
      have "path_join a b = a' @ sep # b"
        using a hdb assms(2) by (simp add: path_join_def)
      moreover have "split_sep a = split_sep a' @ [[]]"
        using split_sep_append[of a' "[]"] a by simp
      ultimately show ?thesis
        using assms by (simp add: components_def split_sep_append split_sep_plain)
    next
      case False
      with \<open>a \<noteq> []\<close> have "path_join a b = a @ sep # b"
        using hdb assms(2) by (simp add: path_join_def)
      then show ?thesis
        using assms by (simp add: components_def split_sep_append split_sep_plain)
    qed
  qed
qed

lemma make_dirs_child:
  assumes "lookup cs n = Some (Dir es)" "\<forall>bs. map_of es c \<noteq> Some (File bs)"
  shows "\<exists>n' es'. make_dirs (cs @ [c]) n = Inr n' \<and> lookup cs n' = Some (Dir es')
            \<and> (\<forall>d. d \<noteq> c \<longrightarrow> map_of es' d = map_of es d)"
  using assms
proof (induction cs arbitrary: n)
  case Nil
  then have n: "n = Dir es" by simp
  show ?case
  proof (cases "map_of es c")
    case None
    with n show ?thesis by (simp add: map_of_set_entry)
  next
    case (Some m)
    with Nil.prems(2) obtain es0 where "m = Dir es0" by (cases m) auto
    with Some n show ?thesis by (simp add: map_of_set_entry)
  qed
next
  case (Cons c0 cs)
  from Cons.prems(1) obtain es0 m where n: "n = Dir es0" and m: "map_of es0 c0 = Some m"
    and l: "lookup cs m = Some (Dir es)"
    by (cases n) (auto split: option.splits)
  from Cons.IH[OF l Cons.prems(2)] obtain m' es' where
    "make_dirs (cs @ [c]) m = Inr m'" "lookup cs m' = Some (Dir es')"
    "\<forall>d. d \<noteq> c \<longrightarrow> map_of es' d = map_of es d"
    by blast
  with n m show ?case by (simp add: map_of_set_entry)
qed

section \<open>Directory Scanner\<close>

lemma collect_images_filter:
  "collect_images folder names acc =
     acc @ map (path_join folder)
            (filter (\<lambda>n. endswith_any (lower n) supported_formats) names)"
  by (induction names arbitrary: acc) simp_all

lemma collect_images_none:
  "\<forall>n\<in>set names. \<not> endswith_any (lower n) supported_formats \<Longrightarrow>
   collect_images folder names [] = []"
  by (simp add: collect_images_filter)

lemma endswith_iff: "endswith s t = (\<exists>stem. s = stem @ t)"
proof
  assume "endswith s t"
  then have "s = take (length s - length t) s @ t"
    by (metis append_take_drop_id endswith_def)
  then show "\<exists>stem. s = stem @ t" ..
next
  assume "\<exists>stem. s = stem @ t"
  then show "endswith s t" by (auto simp: endswith_def)
qed

lemma has_image_extension_iff:
  "has_image_extension name = endswith_any (lower name) supported_formats"
  by (simp add: has_image_extension_def image_extensions_def endswith_any_def
                supported_formats_def endswith_iff)

text \<open>
  Claim C3. For a folder that \<open>os.listdir\<close> can list, \<open>get_image_files\<close> returns the
  joined paths of exactly the entries whose name has a supported extension, compared in
  lower case, each as often as it is listed, and the result is sorted ascending in the
  lexicographic order of the paths.
\<close>

theorem C3_get_image_files:
  assumes "listdir r folder_path = Inr names"
  shows "\<exists>files. get_image_files r folder_path = Inr files
           \<and> sorted files
           \<and> mset files = mset (map (path_join folder_path)
                                   (filter has_image_extension names))"
proof -
  have "filter has_image_extension names
          = filter (\<lambda>n. endswith_any (lower n) supported_formats) names"
    by (rule filter_cong) (simp_all add: has_image_extension_iff)
  with assms show ?thesis
    by (simp add: get_image_files_def collect_images_filter)
qed

text \<open>
  Claim C3 on a folder with a lower-case and an upper-case image name, a directory with
  an image name and a text file: the text file alone is left out.
\<close>

theorem C3_get_image_files_witness:
  "listdir fresh_root ''/app/photos''
     = Inr [''a.png'', ''album.jpg'', ''grey.PNG'', ''notes.txt'']
   \<and> (\<exists>files. get_image_files fresh_root ''/app/photos'' = Inr files
         \<and> sorted files
         \<and> mset files = mset [''/app/photos/a.png'', ''/app/photos/album.jpg'',
                               ''/app/photos/grey.PNG''])"
proof -
  have h: "listdir fresh_root ''/app/photos''
     = Inr [''a.png'', ''album.jpg'', ''grey.PNG'', ''notes.txt'']"
    by (simp add: os_defs path_defs world_defs)
  have f: "map (path_join ''/app/photos'')
             (filter has_image_extension
                [''a.png'', ''album.jpg'', ''grey.PNG'', ''notes.txt''])
           = [''/app/photos/a.png'', ''/app/photos/album.jpg'', ''/app/photos/grey.PNG'']"
    by (simp add: has_image_extension_iff scan_defs path_defs)
  from C3_get_image_files[OF h] h show ?thesis unfolding f by simp
qed

section \<open>Folder Provisioner\<close>

lemma create_folders_succeeds:
  assumes "lookup (components base) r = Some (Dir es)"
    and "\<forall>bs. map_of es ''backup'' \<noteq> Some (File bs)"
    and "\<forall>bs. map_of es ''reduced'' \<noteq> Some (File bs)"
  shows "\<exists>r'. create_folders r base
           = Inr ((path_join base ''backup'', path_join base ''reduced''), r')"
proof -
  have cb: "components (path_join base ''backup'') = components base @ [''backup'']"
    by (rule components_path_join) (simp_all add: sep_def)
  have cr: "components (path_join base ''reduced'') = components base @ [''reduced'']"
    by (rule components_path_join) (simp_all add: sep_def)
  from make_dirs_child[OF assms(1,2)] obtain r1 es1 where
    m1: "make_dirs (components base @ [''backup'']) r = Inr r1" and
    l1: "lookup (components base) r1 = Some (Dir es1)" and
    f1: "\<forall>d. d \<noteq> ''backup'' \<longrightarrow> map_of es1 d = map_of es d"
    by blast
  from f1 assms(3) have "\<forall>bs. map_of es1 ''reduced'' \<noteq> Some (File bs)" by simp
  from make_dirs_child[OF l1 this] obtain r2 where
    m2: "make_dirs (components base @ [''reduced'']) r1 = Inr r2"
    by blast
  from m1 m2 show ?thesis
    by (simp add: create_folders_def makedirs_def Let_def cb cr path_join_nonempty)
qed

text \<open>
  Claim C8. \<open>create_folders\<close> ensures the two directories and is idempotent. Where the
  base path is a directory in which neither name is taken by a regular file, it returns
  the two joined paths. Where both directories exist it raises nothing and changes
  nothing. And whenever it returns, it returns the two joined paths, both are directories
  afterwards, and running it again on the result returns the same pair and leaves the
  filesystem as it is.
\<close>

theorem C8_create_folders_idempotent:
  "(\<forall>es. lookup (components base) r = Some (Dir es)
          \<and> (\<forall>bs. map_of es ''backup'' \<noteq> Some (File bs))
          \<and> (\<forall>bs. map_of es ''reduced'' \<noteq> Some (File bs))
      \<longrightarrow> (\<exists>r'. create_folders r base
                  = Inr ((path_join base ''backup'', path_join base ''reduced''), r')))
   \<and> (isdir r (path_join base ''backup'') \<and> isdir r (path_join base ''reduced'')
      \<longrightarrow> create_folders r base
            = Inr ((path_join base ''backup'', path_join base ''reduced''), r))
   \<and> (\<forall>folders r'. create_folders r base = Inr (folders, r')
      \<longrightarrow> folders = (path_join base ''backup'', path_join base ''reduced'')
          \<and> isdir r' (fst folders) \<and> isdir r' (snd folders)
          \<and> create_folders r' base = Inr (folders, r'))"
proof -
  let ?b = "path_join base ''backup''" and ?d = "path_join base ''reduced''"
  have ne: "?b \<noteq> []" "?d \<noteq> []" by (simp_all add: path_join_nonempty)
  have existing: "create_folders r0 base = Inr ((?b, ?d), r0)"
    if "isdir r0 ?b" "isdir r0 ?d" for r0
    using that ne
    by (auto simp: create_folders_def makedirs_def isdir_def Let_def make_dirs_existing
             split: option.splits node.splits)
  have after: "folders = (?b, ?d) \<and> isdir r' ?b \<and> isdir r' ?d"
    if "create_folders r base = Inr (folders, r')" for folders r'
  proof -
    from that obtain r1 where r1: "makedirs r ?b = Inr r1" and r2: "makedirs r1 ?d = Inr r'"
      and f: "folders = (?b, ?d)"
      by (auto simp: create_folders_def Let_def split: sum.splits)
    from r1 ne obtain es where "lookup (components ?b) r1 = Some (Dir es)"
      by (auto simp: makedirs_def dest: make_dirs_result)
    with r2 ne obtain es' where "lookup (components ?b) r' = Some (Dir es')"
      by (auto simp: makedirs_def dest: make_dirs_keeps_dirs)
    moreover from r2 ne obtain es'' where "lookup (components ?d) r' = Some (Dir es'')"
      by (auto simp: makedirs_def dest: make_dirs_result)
    ultimately show ?thesis using f ne by (simp add: isdir_def)
  qed
  have again: "create_folders r' base = Inr (folders, r')"
    if "create_folders r base = Inr (folders, r')" for folders r'
    using after[OF that] existing[of r'] by simp
  show ?thesis
  proof (intro conjI allI impI)
    fix es
    assume "lookup (components base) r = Some (Dir es)
          \<and> (\<forall>bs. map_of es ''backup'' \<noteq> Some (File bs))
          \<and> (\<forall>bs. map_of es ''reduced'' \<noteq> Some (File bs))"
    then show "\<exists>r'. create_folders r base = Inr ((?b, ?d), r')"
      using create_folders_succeeds[of base r es] by blast
  next
    assume "isdir r ?b \<and> isdir r ?d"
    then show "create_folders r base = Inr ((?b, ?d), r)"
      using existing[of r] by simp
  next
    fix folders r'
    assume c: "create_folders r base = Inr (folders, r')"
    from after[OF c] show "folders = (?b, ?d)" by simp
    from after[OF c] show "isdir r' (fst folders)" by simp
    from after[OF c] show "isdir r' (snd folders)" by simp
    from again[OF c] show "create_folders r' base = Inr (folders, r')" .
  qed
qed

text \<open>Claim C8 on a filesystem that has the photos folder only.\<close>

theorem C8_create_folders_idempotent_witness:
  "lookup (components ''/app'') fresh_root = Some (Dir [(''photos'', photos_dir)])
   \<and> create_folders fresh_root ''/app''
     = Inr ((''/app/backup'', ''/app/reduced''), provisioned_root)
   \<and> isdir provisioned_root ''/app/backup'' \<and> isdir provisioned_root ''/app/reduced''
   \<and> create_folders provisioned_root ''/app''
     = Inr ((''/app/backup'', ''/app/reduced''), provisioned_root)"
proof -
  have l: "lookup (components ''/app'') fresh_root = Some (Dir [(''photos'', photos_dir)])"
    by (simp add: path_defs world_defs)
  have h: "create_folders fresh_root ''/app''
     = Inr ((''/app/backup'', ''/app/reduced''), provisioned_root)"
    by (simp add: os_defs path_defs world_defs driver_defs)
  have j: "path_join ''/app'' ''backup'' = ''/app/backup''"
    "path_join ''/app'' ''reduced'' = ''/app/reduced''"
    by (simp_all add: path_defs)
  from C8_create_folders_idempotent[of "''/app''" fresh_root] h l
  show ?thesis unfolding j by simp
qed

section \<open>Image Transform\<close>

lemma normalize_color_converts:
  "mode img \<in> set [''RGBA'', ''P''] \<Longrightarrow>
   mode (normalize_color P img) = ''RGB'' \<and> img_size (normalize_color P img) = img_size img"
  by (simp add: normalize_color_def convert_def)

lemma normalize_color_mode:
  "mode (normalize_color P img) \<notin> set [''RGBA'', ''P'']"
  by (simp add: normalize_color_def convert_def)

lemma normalize_color_size: "img_size (normalize_color P img) = img_size img"
  by (simp add: normalize_color_def convert_def)

text \<open>
  Claim C1. An image of mode \<open>LA\<close> (grey with alpha) has an alpha channel, and lines 22
  and 23 leave it as it is: what goes to the encoder still has the alpha channel and is
  not a 3-channel image.
\<close>

theorem C1_grey_alpha_not_converted:
  "normalize_color P \<lparr>mode = ''LA'', img_size = (2, 2), pixels = px\<rparr>
     = \<lparr>mode = ''LA'', img_size = (2, 2), pixels = px\<rparr>
   \<and> has_alpha (mode (normalize_color P \<lparr>mode = ''LA'', img_size = (2, 2), pixels = px\<rparr>))
   \<and> mode (normalize_color P \<lparr>mode = ''LA'', img_size = (2, 2), pixels = px\<rparr>) \<noteq> ''RGB''"
  by (simp add: normalize_color_def has_alpha_def)

text \<open>With an encoder that refuses the mode, as the JPEG plugin does, nothing is written.\<close>

lemma grey_alpha_run:
  "reduce_image_size toy_pil ''/app/photos/grey.PNG'' ''/app/reduced/grey.PNG'' 85 1200 1200
      \<lparr>root = provisioned_root, out = []\<rparr>
   = ((0, 0), \<lparr>root = provisioned_root,
               out = [ErrorProcessing ''/app/photos/grey.PNG'' (OSError ''cannot write mode'')]\<rparr>)"
  by (simp add: transform_defs os_defs path_defs world_defs toy_defs)

text \<open>
  The guard of line 27: within the bounds the image and the console are left alone, and
  beyond them the image saved is the one \<open>thumbnail\<close> gives for the box
  \<open>(max_width, max_height)\<close>.
\<close>

lemma resize_step_within_bounds:
  "fst (img_size img) \<le> max_width \<Longrightarrow> snd (img_size img) \<le> max_height \<Longrightarrow>
   resize_step P image_path max_width max_height img w = Inr (img, w)"
  by (simp add: resize_step_def Let_def)

lemma resize_step_exceeding:
  "fst (img_size img) > max_width \<or> snd (img_size img) > max_height \<Longrightarrow>
   resize_step P image_path max_width max_height img w = Inr (img', w') \<Longrightarrow>
   thumbnail P img (max_width, max_height) = Inr img'"
  by (auto simp: resize_step_def Let_def split: sum.splits)

text \<open>Rounding a quotient down or up, as \<open>thumbnail\<close> does for the side it computes.\<close>

lemma floor_bounds:
  fixes a b :: int
  assumes "0 < b"
  shows "a - b < (a div b) * b \<and> (a div b) * b \<le> a"
proof -
  have "a div b * b + a mod b = a" by simp
  moreover have "0 \<le> a mod b" "a mod b < b" using assms by simp_all
  ultimately show ?thesis by linarith
qed

lemma ceil_bounds:
  fixes a b :: int
  assumes "0 < b"
  shows "a \<le> (- ((- a) div b)) * b \<and> (- ((- a) div b)) * b < a + b"
  using floor_bounds[OF assms, of "- a"] by simp

lemma round_dim:
  fixes a d x n :: int
  assumes "0 < d" "0 < a" "a \<le> x * d" "0 < x"
    and "n = a div d \<or> n = - ((- a) div d)"
  shows "max n 1 \<le> x \<and> \<bar>max n 1 * d - a\<bar> < d"
proof -
  have b: "a - d < n * d \<and> n * d < a + d"
    using assms(5) floor_bounds[OF assms(1), of a] ceil_bounds[OF assms(1), of a] by auto
  then have "(- 1) * d < n * d" using assms(2) by simp
  then have "- 1 < n" using assms(1) by (simp only: mult_less_cancel_right_pos)
  then have n0: "0 \<le> n" by simp
  from b assms(3) have "n * d < (x + 1) * d" by (simp add: algebra_simps)
  then have "n < x + 1" using assms(1) by (simp only: mult_less_cancel_right_pos)
  then have nx: "n \<le> x" by simp
  show ?thesis
  proof (cases "n = 0")
    case True
    with b assms show ?thesis by auto
  next
    case False
    with n0 have "max n 1 = n" by simp
    with b nx show ?thesis by auto
  qed
qed

text \<open>The stand-in codecs keep the contract of \<open>thumbnail\<close>.\<close>

lemma toy_thumbnail_contract:
  assumes "0 < fst (img_size img)" "0 < snd (img_size img)" "0 < bw" "0 < bh"
    and "toy_thumbnail img (bw, bh) = Inr img'"
  shows "fst (img_size img') \<le> bw \<and> snd (img_size img') \<le> bh
       \<and> aspect_within_pixel (img_size img) (img_size img')"
proof -
  let ?W = "fst (img_size img)" and ?H = "snd (img_size img)"
  show ?thesis
  proof (cases "bw \<ge> ?W \<and> bh \<ge> ?H")
    case True
    with assms show ?thesis
      by (auto simp: toy_thumbnail_def aspect_within_pixel_def Let_def)
  next
    case nofit: False
    show ?thesis
    proof (cases "bw * ?H \<ge> ?W * bh")
      case True
      define n where "n = (if \<bar>?W * bh - (bh * ?W) div ?H * ?H\<bar>
                            \<le> \<bar>?W * bh - (- ((- (bh * ?W)) div ?H)) * ?H\<bar>
                           then (bh * ?W) div ?H else - ((- (bh * ?W)) div ?H))"
      have img': "img' = img\<lparr>img_size := (max n 1, bh)\<rparr>"
        using assms nofit True by (auto simp: toy_thumbnail_def Let_def n_def)
      have "n = (bh * ?W) div ?H \<or> n = - ((- (bh * ?W)) div ?H)"
        by (simp add: n_def)
      moreover have "0 < bh * ?W" using assms by simp
      moreover have "bh * ?W \<le> bw * ?H" using True by (simp add: mult.commute)
      ultimately have "max n 1 \<le> bw \<and> \<bar>max n 1 * ?H - bh * ?W\<bar> < ?H"
        using round_dim[of ?H "bh * ?W" bw n] assms by blast
      with img' show ?thesis by (simp add: aspect_within_pixel_def)
    next
      case False
      define n where "n = (if (bw * ?H) div ?W = 0
                            \<or> \<bar>?W * ((bw * ?H) div ?W) - bw * ?H\<bar> * (- ((- (bw * ?H)) div ?W))
                               \<le> \<bar>?W * (- ((- (bw * ?H)) div ?W)) - bw * ?H\<bar> * ((bw * ?H) div ?W)
                           then (bw * ?H) div ?W else - ((- (bw * ?H)) div ?W))"
      have img': "img' = img\<lparr>img_size := (bw, max n 1)\<rparr>"
        using assms nofit False by (auto simp: toy_thumbnail_def Let_def n_def)
      have "n = (bw * ?H) div ?W \<or> n = - ((- (bw * ?H)) div ?W)"
        by (simp add: n_def)
      moreover have "0 < bw * ?H" using assms by simp
      moreover have "bw * ?H \<le> bh * ?W" using False by (simp add: mult.commute)
      ultimately have "max n 1 \<le> bh \<and> \<bar>max n 1 * ?W - bw * ?H\<bar> < ?W"
        using round_dim[of ?W "bw * ?H" bh n] assms by blast
      with img' show ?thesis by (simp add: aspect_within_pixel_def)
    qed
  qed
qed

lemma thumbnail_contract_toy: "thumbnail_contract toy_pil"
  unfolding thumbnail_contract_def
  by (intro allI impI) (rule toy_thumbnail_contract, simp_all add: toy_pil_def)

lemma thumbnail_contract_turned: "thumbnail_contract turned_pil"
  unfolding thumbnail_contract_def
  by (intro allI impI) (rule toy_thumbnail_contract, simp_all add: turned_pil_def toy_pil_def)

text \<open>
  Claim C2, as the program has it. The sizes compared with the bounds are those of the
  image after \<open>exif_transpose\<close>. When both are within the bounds, the image encoded
  and written is that image with its colours normalised, of the same size. When either
  exceeds its bound, the image encoded and written is what \<open>thumbnail\<close> gives for the
  box \<open>(max_width, max_height)\<close>; with a \<open>thumbnail\<close> that keeps its contract and
  positive bounds, its width is at most \<open>max_width\<close>, its height at most
  \<open>max_height\<close>, its size differs from the one before and its aspect ratio is that of
  the image within one pixel of rounding.
\<close>

theorem C2_resize_after_orientation:
  assumes "thumbnail_contract P"
    and "Image_open P (root w) image_path = Inr img0"
    and "exif_transpose P img0 = Inr img1"
    and "0 < fst (img_size img1)" "0 < snd (img_size img1)"
    and "0 < max_width" "0 < max_height"
  shows "(fst (img_size img1) \<le> max_width \<and> snd (img_size img1) \<le> max_height \<longrightarrow>
            reduce_image_size_try P image_path output_path quality max_width max_height w
              = save_and_measure P image_path output_path quality (normalize_color P img1) w
            \<and> img_size (normalize_color P img1) = img_size img1)
       \<and> (fst (img_size img1) > max_width \<or> snd (img_size img1) > max_height \<longrightarrow>
            (\<forall>img2. thumbnail P (normalize_color P img1) (max_width, max_height) = Inr img2 \<longrightarrow>
               reduce_image_size_try P image_path output_path quality max_width max_height w
                 = save_and_measure P image_path output_path quality img2
                     (print (Resized (basename image_path)
                               (fst (img_size img1)) (snd (img_size img1))
                               (fst (img_size img2)) (snd (img_size img2))) w)
               \<and> fst (img_size img2) \<le> max_width \<and> snd (img_size img2) \<le> max_height
               \<and> img_size img2 \<noteq> img_size img1
               \<and> aspect_within_pixel (img_size img1) (img_size img2)))"
proof (intro conjI impI allI)
  assume "fst (img_size img1) \<le> max_width \<and> snd (img_size img1) \<le> max_height"
  then show "reduce_image_size_try P image_path output_path quality max_width max_height w
       = save_and_measure P image_path output_path quality (normalize_color P img1) w"
    using assms(2,3)
    by (simp add: reduce_image_size_try_def resize_step_within_bounds normalize_color_size)
next
  show "img_size (normalize_color P img1) = img_size img1"
    by (rule normalize_color_size)
next
  fix img2
  assume ex: "fst (img_size img1) > max_width \<or> snd (img_size img1) > max_height"
    and th: "thumbnail P (normalize_color P img1) (max_width, max_height) = Inr img2"
  have c: "fst (img_size img2) \<le> max_width \<and> snd (img_size img2) \<le> max_height
       \<and> aspect_within_pixel (img_size (normalize_color P img1)) (img_size img2)"
    using assms(1,4,5,6,7) th
    unfolding thumbnail_contract_def normalize_color_size[symmetric, of img1 P]
    by blast
  from c show "fst (img_size img2) \<le> max_width" by simp
  from c show "snd (img_size img2) \<le> max_height" by simp
  from c show "aspect_within_pixel (img_size img1) (img_size img2)"
    by (simp add: normalize_color_size)
  from c ex show "img_size img2 \<noteq> img_size img1" by auto
  from ex th show "reduce_image_size_try P image_path output_path quality max_width max_height w
       = save_and_measure P image_path output_path quality img2
           (print (Resized (basename image_path)
                     (fst (img_size img1)) (snd (img_size img1))
                     (fst (img_size img2)) (snd (img_size img2))) w)"
    using assms(2,3)
    by (simp add: reduce_image_size_try_def resize_step_def Let_def normalize_color_size)
qed

text \<open>
  Claim C2, as the program has it, on an image of 4 by 8 pixels and the bounds 2 by 8:
  the image written is 2 by 4.
\<close>

theorem C2_resize_after_orientation_witness:
  "thumbnail_contract toy_pil
   \<and> Image_open toy_pil tall_root ''/app/photos/tall.jpg''
       = Inr \<lparr>mode = ''RGB'', img_size = (4, 8), pixels = [7, 7, 7]\<rparr>
   \<and> exif_transpose toy_pil \<lparr>mode = ''RGB'', img_size = (4, 8), pixels = [7, 7, 7]\<rparr>
       = Inr \<lparr>mode = ''RGB'', img_size = (4, 8), pixels = [7, 7, 7]\<rparr>
   \<and> thumbnail toy_pil \<lparr>mode = ''RGB'', img_size = (4, 8), pixels = [7, 7, 7]\<rparr> (2, 8)
       = Inr \<lparr>mode = ''RGB'', img_size = (2, 4), pixels = [7, 7, 7]\<rparr>
   \<and> aspect_within_pixel (4, 8) (2, 4)
   \<and> reduce_image_size_try toy_pil ''/app/photos/tall.jpg'' ''/app/reduced/tall.jpg'' 85 2 8
         \<lparr>root = tall_root, out = []\<rparr>
       = save_and_measure toy_pil ''/app/photos/tall.jpg'' ''/app/reduced/tall.jpg'' 85
           \<lparr>mode = ''RGB'', img_size = (2, 4), pixels = [7, 7, 7]\<rparr>
           \<lparr>root = tall_root, out = [Resized ''tall.jpg'' 4 8 2 4]\<rparr>"
proof -
  let ?img = "\<lparr>mode = ''RGB'', img_size = (4, 8), pixels = [7, 7, 7]\<rparr>"
  let ?small = "\<lparr>mode = ''RGB'', img_size = (2, 4), pixels = [7, 7, 7]\<rparr>"
  let ?w = "\<lparr>root = tall_root, out = []\<rparr>"
  have h1: "Image_open toy_pil (root ?w) ''/app/photos/tall.jpg'' = Inr ?img"
    by (simp add: Image_open_def os_defs path_defs world_defs toy_defs)
  have h2: "exif_transpose toy_pil ?img = Inr ?img"
    by (simp add: toy_pil_def)
  have n: "normalize_color toy_pil ?img = ?img"
    by (simp add: normalize_color_def)
  have t: "thumbnail toy_pil ?img (2, 8) = Inr ?small"
    by (simp add: toy_defs Let_def)
  have b: "basename ''/app/photos/tall.jpg'' = ''tall.jpg''"
    by (simp add: path_defs)
  have p: "(0::int) < fst (img_size ?img)" "(0::int) < snd (img_size ?img)"
    "(0::int) < 2" "(0::int) < 8"
    by simp_all
  from C2_resize_after_orientation[OF thumbnail_contract_toy h1 h2 p,
         where output_path = "''/app/reduced/tall.jpg''" and quality = 85]
    thumbnail_contract_toy h1 h2 t
  show ?thesis by (simp add: n b print_def)
qed

text \<open>
  Claim C2 as it is written fails on an image whose orientation tag asks for a quarter
  turn: decoded, it is 4 by 8 pixels, within the bounds 6 by 8; turned, it is 8 by 4, and
  it is resized to 6 by 3.
\<close>

theorem C2_turned_image_resized:
  "Image_open turned_pil tall_root ''/app/photos/tall.jpg''
     = Inr \<lparr>mode = ''RGB'', img_size = (4, 8), pixels = [7, 7, 7]\<rparr>
   \<and> (4::int) \<le> 6 \<and> (8::int) \<le> 8
   \<and> reduce_image_size turned_pil ''/app/photos/tall.jpg'' ''/app/reduced/tall.jpg'' 85 6 8
        \<lparr>root = tall_root, out = []\<rparr>
     = ((6, 5),
        \<lparr>root = Dir [(''app'', Dir [(''photos'', Dir [(''tall.jpg'', File [0, 4, 8, 7, 7, 7])]),
                                   (''backup'', Dir []),
                                   (''reduced'', Dir [(''tall.jpg'', File [255, 216, 7, 7, 7])])])],
         out = [Resized ''tall.jpg'' 8 4 6 3, Compressed ''tall.jpg'' 6 5]\<rparr>)"
  by (simp add: transform_defs os_defs path_defs world_defs toy_defs Let_def)

lemma save_and_measure_sizes:
  assumes "save_and_measure P image_path output_path q img w = (Inr (a, b), w')"
  shows "\<exists>bs. encode P img ''JPEG'' q = Inr bs
            \<and> write_file (root w) output_path bs = Inr (root w')
            \<and> b = int (length bs) \<and> 0 < a \<and> getsize (root w) image_path = Inr a
            \<and> out w' = out w @ [Compressed (basename image_path) a b]"
proof -
  from assms obtain r' where
    a: "getsize (root w) image_path = Inr a" and
    s: "save P img output_path ''JPEG'' q (root w) = Inr r'" and
    b: "getsize r' output_path = Inr b" and
    nz: "a \<noteq> 0" and
    w': "w' = print (Compressed (basename image_path) a b) (w\<lparr>root := r'\<rparr>)"
    by (auto simp: save_and_measure_def split: sum.splits if_splits)
  from s obtain bs where e: "encode P img ''JPEG'' q = Inr bs"
    and wr: "write_file (root w) output_path bs = Inr r'"
    by (auto simp: save_def split: sum.splits)
  from wr b have "b = int (length bs)" by (simp add: write_file_getsize)
  moreover from a nz have "0 < a" using getsize_nonneg[OF a] by simp
  ultimately show ?thesis using e wr a w' by (auto simp: print_def)
qed

lemma reduce_try_success:
  assumes "reduce_image_size_try P image_path output_path q mw mh w = (Inr (a, b), w')"
  shows "\<exists>img bs r0. encode P img ''JPEG'' q = Inr bs
            \<and> write_file r0 output_path bs = Inr (root w')
            \<and> b = int (length bs) \<and> 0 < a"
proof -
  from assms obtain img2 w1 where
    "save_and_measure P image_path output_path q img2 w1 = (Inr (a, b), w')"
    by (auto simp: reduce_image_size_try_def split: sum.splits)
  from save_and_measure_sizes[OF this] show ?thesis by blast
qed

lemma reduce_image_size_success:
  "reduce_image_size_try P ip op q mw mh w = (Inr s, w') \<Longrightarrow>
   reduce_image_size P ip op q mw mh w = (s, w')"
  by (simp add: reduce_image_size_def)

lemma reduce_image_size_failure:
  "reduce_image_size_try P ip op q mw mh w = (Inl e, w') \<Longrightarrow>
   reduce_image_size P ip op q mw mh w = ((0, 0), print (ErrorProcessing ip e) w')"
  by (simp add: reduce_image_size_def)

text \<open>
  Claim C4. Whichever step raises, opening and decoding the source, normalising the
  orientation, resizing, or encoding and writing the destination, \<open>reduce_image_size\<close>
  returns \<open>(0, 0)\<close> and reports the error with the path of the file.
\<close>

theorem C4_failure_returns_sentinel:
  assumes "(\<exists>e. Image_open P (root w) image_path = Inl e)
     \<or> (\<exists>img0 e. Image_open P (root w) image_path = Inr img0 \<and> exif_transpose P img0 = Inl e)
     \<or> (\<exists>img0 img1 e. Image_open P (root w) image_path = Inr img0
           \<and> exif_transpose P img0 = Inr img1
           \<and> resize_step P image_path max_width max_height (normalize_color P img1) w = Inl e)
     \<or> (\<exists>img0 img1 img2 w1 e. Image_open P (root w) image_path = Inr img0
           \<and> exif_transpose P img0 = Inr img1
           \<and> resize_step P image_path max_width max_height (normalize_color P img1) w
               = Inr (img2, w1)
           \<and> save P img2 output_path ''JPEG'' quality (root w1) = Inl e)"
  shows "fst (reduce_image_size P image_path output_path quality max_width max_height w) = (0, 0)
     \<and> (\<exists>e w'. snd (reduce_image_size P image_path output_path quality max_width max_height w)
                 = print (ErrorProcessing image_path e) w')"
  using assms
  by (auto simp: reduce_image_size_def reduce_image_size_try_def save_and_measure_def
           split: sum.splits prod.splits)

text \<open>Claim C4 on a file that is not an image.\<close>

theorem C4_failure_returns_sentinel_witness:
  "Image_open toy_pil provisioned_root ''/app/photos/notes.txt'' = Inl UnidentifiedImageError
   \<and> fst (reduce_image_size toy_pil ''/app/photos/notes.txt'' ''/app/reduced/notes.txt''
             85 1200 1200 \<lparr>root = provisioned_root, out = []\<rparr>) = (0, 0)"
proof -
  have h: "Image_open toy_pil (root \<lparr>root = provisioned_root, out = []\<rparr>)
             ''/app/photos/notes.txt'' = Inl UnidentifiedImageError"
    by (simp add: Image_open_def os_defs path_defs world_defs toy_defs)
  then have "\<exists>e. Image_open toy_pil (root \<lparr>root = provisioned_root, out = []\<rparr>)
             ''/app/photos/notes.txt'' = Inl e" by blast
  from C4_failure_returns_sentinel[OF disjI1, OF this] h show ?thesis by simp
qed

section \<open>Batch Driver\<close>

lemma accumulate_positive:
  "0 < a \<Longrightarrow> 0 < b \<Longrightarrow>
   accumulate t (a, b) = t\<lparr>total_original_size := total_original_size t + a,
                          total_new_size := total_new_size t + b,
                          processed_count := processed_count t + 1\<rparr>"
  by (simp add: accumulate_def)

lemma accumulate_zero: "a \<le> 0 \<or> b \<le> 0 \<Longrightarrow> accumulate t (a, b) = t"
  by (auto simp: accumulate_def)

lemma process_file_copied:
  assumes "copy2 (root w) image_path (path_join backup_folder (basename image_path)) = Inr r1"
  shows "process_file P backup_folder reduced_folder image_path (t, w) =
     (accumulate t (fst (reduce_image_size P image_path
         (path_join reduced_folder (basename image_path)) QUALITY MAX_WIDTH MAX_HEIGHT
         (print (CreatedBackup (basename image_path)) (w\<lparr>root := r1\<rparr>)))),
      snd (reduce_image_size P image_path
         (path_join reduced_folder (basename image_path)) QUALITY MAX_WIDTH MAX_HEIGHT
         (print (CreatedBackup (basename image_path)) (w\<lparr>root := r1\<rparr>))))"
  using assms by (simp add: process_file_def Let_def)

lemma process_file_not_copied:
  assumes "copy2 (root w) image_path (path_join backup_folder (basename image_path)) = Inl e"
  shows "process_file P backup_folder reduced_folder image_path (t, w) =
     (t, print (ErrorProcessing (basename image_path) e) w)"
  using assms by (simp add: process_file_def Let_def)

lemma process_file_world:
  "snd (process_file P b d ip (t, w)) = snd (process_file P b d ip (t', w))"
  by (simp add: process_file_def Let_def split: sum.splits)

text \<open>
  Claim C5. When the backup copy of a file raises, the loop body leaves the totals and
  the filesystem as they were and prints the error only, so the transform has not run
  for the file, and the loop goes on with the files that remain.
\<close>

theorem C5_backup_failure_skips_file:
  assumes "copy2 (root w) image_path (path_join backup_folder (basename image_path)) = Inl e"
  shows "process_file P backup_folder reduced_folder image_path (t, w)
           = (t, print (ErrorProcessing (basename image_path) e) w)
       \<and> process_all P backup_folder reduced_folder (image_path # rest) (t, w)
           = process_all P backup_folder reduced_folder rest
               (t, print (ErrorProcessing (basename image_path) e) w)"
  using process_file_not_copied[OF assms] by simp

text \<open>Claim C5 on an entry of the photos folder that is a directory.\<close>

theorem C5_backup_failure_skips_file_witness:
  "copy2 provisioned_root ''/app/photos/album.jpg''
      (path_join ''/app/backup'' (basename ''/app/photos/album.jpg'')) = Inl IsADirectoryError
   \<and> process_file toy_pil ''/app/backup'' ''/app/reduced'' ''/app/photos/album.jpg''
        (empty_totals, \<lparr>root = provisioned_root, out = []\<rparr>)
      = (empty_totals, \<lparr>root = provisioned_root,
                         out = [ErrorProcessing ''album.jpg'' IsADirectoryError]\<rparr>)"
proof -
  have h: "copy2 (root \<lparr>root = provisioned_root, out = []\<rparr>) ''/app/photos/album.jpg''
      (path_join ''/app/backup'' (basename ''/app/photos/album.jpg'')) = Inl IsADirectoryError"
    by (simp add: os_defs path_defs world_defs)
  have b: "basename ''/app/photos/album.jpg'' = ''album.jpg''"
    by (simp add: path_defs)
  from C5_backup_failure_skips_file[OF h, where P = toy_pil and t = empty_totals
        and reduced_folder = "''/app/reduced''" and rest = "[]"] h
  show ?thesis by (simp add: b print_def)
qed

text \<open>
  Claim C10. After a backup copy that went through, the totals change exactly when both
  sizes the transform returned are above zero: a pair with a zero in it is left out,
  whether or not it is \<open>(0, 0)\<close>.
\<close>

theorem C10_counted_only_when_both_positive:
  assumes "copy2 (root w) image_path (path_join backup_folder (basename image_path)) = Inr r1"
    and "reduce_image_size P image_path (path_join reduced_folder (basename image_path))
           QUALITY MAX_WIDTH MAX_HEIGHT
           (print (CreatedBackup (basename image_path)) (w\<lparr>root := r1\<rparr>))
         = ((original_size, new_size), w')"
  shows "fst (process_file P backup_folder reduced_folder image_path (t, w)) =
           (if original_size > 0 \<and> new_size > 0
            then t\<lparr>total_original_size := total_original_size t + original_size,
                   total_new_size := total_new_size t + new_size,
                   processed_count := processed_count t + 1\<rparr>
            else t)"
  using assms(2) by (simp add: process_file_copied[OF assms(1)] accumulate_def)

text \<open>
  Claim C10 with an encoder that gives an empty file: the transform returns \<open>(6, 0)\<close>
  and the file is not counted.
\<close>

theorem C10_counted_only_when_both_positive_witness:
  "copy2 provisioned_root ''/app/photos/a.png''
      (path_join ''/app/backup'' (basename ''/app/photos/a.png''))
     = Inr (Dir [(''app'', Dir [(''photos'', photos_dir),
                               (''backup'', Dir [(''a.png'', File [1, 3, 2, 7, 7, 7])]),
                               (''reduced'', Dir [])])])
   \<and> fst (reduce_image_size blank_pil ''/app/photos/a.png''
            (path_join ''/app/reduced'' (basename ''/app/photos/a.png''))
            QUALITY MAX_WIDTH MAX_HEIGHT
            (print (CreatedBackup (basename ''/app/photos/a.png''))
               \<lparr>root = Dir [(''app'', Dir [(''photos'', photos_dir),
                               (''backup'', Dir [(''a.png'', File [1, 3, 2, 7, 7, 7])]),
                               (''reduced'', Dir [])])], out = []\<rparr>)) = (6, 0)
   \<and> fst (process_file blank_pil ''/app/backup'' ''/app/reduced'' ''/app/photos/a.png''
            (empty_totals, \<lparr>root = provisioned_root, out = []\<rparr>)) = empty_totals"
proof -
  let ?r1 = "Dir [(''app'', Dir [(''photos'', photos_dir),
                               (''backup'', Dir [(''a.png'', File [1, 3, 2, 7, 7, 7])]),
                               (''reduced'', Dir [])])]"
  let ?w = "\<lparr>root = provisioned_root, out = []\<rparr>"
  have h1: "copy2 (root ?w) ''/app/photos/a.png''
      (path_join ''/app/backup'' (basename ''/app/photos/a.png'')) = Inr ?r1"
    by (simp add: os_defs path_defs world_defs)
  have v: "fst (reduce_image_size blank_pil ''/app/photos/a.png''
            (path_join ''/app/reduced'' (basename ''/app/photos/a.png''))
            QUALITY MAX_WIDTH MAX_HEIGHT
            (print (CreatedBackup (basename ''/app/photos/a.png'')) (?w\<lparr>root := ?r1\<rparr>)))
          = (6, 0)"
    by (simp add: driver_defs transform_defs os_defs path_defs world_defs toy_defs)
  then have h2: "reduce_image_size blank_pil ''/app/photos/a.png''
            (path_join ''/app/reduced'' (basename ''/app/photos/a.png''))
            QUALITY MAX_WIDTH MAX_HEIGHT
            (print (CreatedBackup (basename ''/app/photos/a.png'')) (?w\<lparr>root := ?r1\<rparr>))
          = ((6, 0), snd (reduce_image_size blank_pil ''/app/photos/a.png''
            (path_join ''/app/reduced'' (basename ''/app/photos/a.png''))
            QUALITY MAX_WIDTH MAX_HEIGHT
            (print (CreatedBackup (basename ''/app/photos/a.png'')) (?w\<lparr>root := ?r1\<rparr>))))"
    by (metis prod.collapse)
  from C10_counted_only_when_both_positive[OF h1 h2, where t = empty_totals] h1 v
  show ?thesis by simp
qed

lemma process_file_totals:
  assumes "nonempty_output P"
  shows "fst (process_file P b d ip (t, w)) =
           (case attempt P b d ip w of
              Inl e \<Rightarrow> t
            | Inr (original_size, new_size) \<Rightarrow>
                t\<lparr>total_original_size := total_original_size t + original_size,
                  total_new_size := total_new_size t + new_size,
                  processed_count := processed_count t + 1\<rparr>)"
proof (cases "copy2 (root w) ip (path_join b (basename ip))")
  case (Inl e)
  then show ?thesis by (simp add: attempt_def process_file_not_copied)
next
  case (Inr r1)
  let ?w1 = "print (CreatedBackup (basename ip)) (w\<lparr>root := r1\<rparr>)"
  obtain res w' where tr:
    "reduce_image_size_try P ip (path_join d (basename ip)) QUALITY MAX_WIDTH MAX_HEIGHT ?w1
       = (res, w')"
    by (cases "reduce_image_size_try P ip (path_join d (basename ip)) QUALITY MAX_WIDTH
                 MAX_HEIGHT ?w1")
  show ?thesis
  proof (cases res)
    case (Inl e)
    with tr Inr show ?thesis
      by (simp add: attempt_def process_file_copied reduce_image_size_failure accumulate_def)
  next
    case s: (Inr sizes)
    obtain a c where sizes: "sizes = (a, c)" by (cases sizes)
    from reduce_try_success[OF tr[unfolded s sizes]] obtain img bs where
      "encode P img ''JPEG'' QUALITY = Inr bs" "c = int (length bs)" "0 < a"
      by blast
    with assms have pos: "0 < a" "0 < c" by (auto simp: nonempty_output_def)
    from tr s sizes Inr show ?thesis
      by (simp add: attempt_def process_file_copied reduce_image_size_success
                    accumulate_positive[OF pos])
  qed
qed

lemma nonempty_output_toy: "nonempty_output toy_pil"
  by (simp add: nonempty_output_def toy_pil_def toy_encode_def)

text \<open>
  Claim C6. With an encoder that never gives an empty file, a run over any files from
  any totals adds to them one pair of sizes and one count for each file whose backup copy
  and transform both went through, and nothing for a file that failed at either step.
\<close>

theorem C6_run_totals:
  assumes "nonempty_output P"
  shows "fst (process_all P backup_folder reduced_folder files (t, w)) =
     t\<lparr>total_original_size := total_original_size t
          + sum_list (map fst (contributions (run_outcomes P backup_folder reduced_folder files w))),
       total_new_size := total_new_size t
          + sum_list (map snd (contributions (run_outcomes P backup_folder reduced_folder files w))),
       processed_count := processed_count t
          + int (length (contributions (run_outcomes P backup_folder reduced_folder files w)))\<rparr>"
proof (induction files arbitrary: t w)
  case Nil
  show ?case by simp
next
  case (Cons ip rest)
  let ?st = "process_file P backup_folder reduced_folder ip (t, w)"
  have w: "snd ?st = snd (process_file P backup_folder reduced_folder ip (empty_totals, w))"
    by (rule process_file_world)
  have step: "process_all P backup_folder reduced_folder (ip # rest) (t, w)
          = process_all P backup_folder reduced_folder rest (fst ?st, snd ?st)"
    by simp
  note ih = Cons.IH[of "fst ?st" "snd ?st"]
  show ?case
  proof (cases "attempt P backup_folder reduced_folder ip w")
    case (Inl e)
    then have "fst ?st = t" by (simp add: process_file_totals[OF assms])
    with Inl show ?thesis
      unfolding step ih by (simp add: w)
  next
    case (Inr sizes)
    obtain a c where sizes: "sizes = (a, c)" by (cases sizes)
    with Inr have "fst ?st = t\<lparr>total_original_size := total_original_size t + a,
                  total_new_size := total_new_size t + c,
                  processed_count := processed_count t + 1\<rparr>"
      by (simp add: process_file_totals[OF assms])
    with Inr sizes show ?thesis
      unfolding step ih by (simp add: w)
  qed
qed

text \<open>
  Claim C6 on three files: an image, a directory whose copy fails, and an image whose
  encoding fails.
\<close>

theorem C6_run_totals_witness:
  "nonempty_output toy_pil
   \<and> fst (process_all toy_pil ''/app/backup'' ''/app/reduced''
            [''/app/photos/a.png'', ''/app/photos/album.jpg'', ''/app/photos/grey.PNG'']
            (empty_totals, \<lparr>root = provisioned_root, out = []\<rparr>))
     = \<lparr>processed_count = 1, total_original_size = 6, total_new_size = 5\<rparr>"
proof -
  have r: "contributions (run_outcomes toy_pil ''/app/backup'' ''/app/reduced''
            [''/app/photos/a.png'', ''/app/photos/album.jpg'', ''/app/photos/grey.PNG'']
            \<lparr>root = provisioned_root, out = []\<rparr>) = [(6, 5)]"
    by (simp add: driver_defs transform_defs os_defs path_defs world_defs toy_defs Let_def)
  from C6_run_totals[OF nonempty_output_toy, where t = empty_totals
        and backup_folder = "''/app/backup''" and reduced_folder = "''/app/reduced''"
        and files = "[''/app/photos/a.png'', ''/app/photos/album.jpg'', ''/app/photos/grey.PNG'']"
        and w = "\<lparr>root = provisioned_root, out = []\<rparr>"]
  show ?thesis
    unfolding r by (simp add: nonempty_output_toy empty_totals_def)
qed

text \<open>
  Claim C9. For a file name of the photos folder whose backup copy and transform went
  through, the reduced folder holds, under that same name, the bytes the encoder gave for
  the format \<open>JPEG\<close>, whatever the extension of the name.
\<close>

theorem C9_reduced_file_keeps_name:
  assumes "sep \<notin> set filename"
    and "attempt P backup_folder reduced_folder (path_join input_folder filename) w = Inr sizes"
  shows "\<exists>img bs. encode P img ''JPEG'' QUALITY = Inr bs
     \<and> read_file (root (snd (process_file P backup_folder reduced_folder
                                 (path_join input_folder filename) (t, w))))
          (path_join reduced_folder filename) = Inr bs
     \<and> basename (path_join reduced_folder filename) = filename"
proof -
  let ?ip = "path_join input_folder filename"
  have bn: "basename ?ip = filename" using assms(1) by (rule basename_path_join)
  from assms(2) obtain r1 where c: "copy2 (root w) ?ip (path_join backup_folder (basename ?ip)) = Inr r1"
    by (auto simp: attempt_def split: sum.splits)
  let ?w1 = "print (CreatedBackup (basename ?ip)) (w\<lparr>root := r1\<rparr>)"
  obtain res w' where tr: "reduce_image_size_try P ?ip (path_join reduced_folder (basename ?ip))
       QUALITY MAX_WIDTH MAX_HEIGHT ?w1 = (res, w')"
    by (cases "reduce_image_size_try P ?ip (path_join reduced_folder (basename ?ip))
                 QUALITY MAX_WIDTH MAX_HEIGHT ?w1")
  with assms(2) c have res: "res = Inr sizes" by (simp add: attempt_def)
  obtain a b where sizes: "sizes = (a, b)" by (cases sizes)
  from reduce_try_success[OF tr[unfolded res sizes]] obtain img bs r0 where
    e: "encode P img ''JPEG'' QUALITY = Inr bs" and
    wr: "write_file r0 (path_join reduced_folder (basename ?ip)) bs = Inr (root w')"
    by blast
  have "snd (process_file P backup_folder reduced_folder ?ip (t, w)) = w'"
    using tr res by (simp add: process_file_copied[OF c] reduce_image_size_success)
  moreover from wr have "read_file (root w') (path_join reduced_folder filename) = Inr bs"
    unfolding bn by (rule write_file_read)
  moreover have "basename (path_join reduced_folder filename) = filename"
    using assms(1) by (rule basename_path_join)
  ultimately show ?thesis using e by auto
qed

text \<open>Claim C9 on a file named \<open>a.png\<close>.\<close>

theorem C9_reduced_file_keeps_name_witness:
  "sep \<notin> set ''a.png''
   \<and> attempt toy_pil ''/app/backup'' ''/app/reduced'' (path_join ''/app/photos'' ''a.png'')
        \<lparr>root = provisioned_root, out = []\<rparr> = Inr (6, 5)
   \<and> (\<exists>img bs. encode toy_pil img ''JPEG'' QUALITY = Inr bs
        \<and> read_file (root (snd (process_file toy_pil ''/app/backup'' ''/app/reduced''
                                   (path_join ''/app/photos'' ''a.png'')
                                   (empty_totals, \<lparr>root = provisioned_root, out = []\<rparr>))))
             (path_join ''/app/reduced'' ''a.png'') = Inr bs
        \<and> basename (path_join ''/app/reduced'' ''a.png'') = ''a.png'')"
proof -
  have h1: "sep \<notin> set ''a.png''" by (simp add: sep_def)
  have h2: "attempt toy_pil ''/app/backup'' ''/app/reduced'' (path_join ''/app/photos'' ''a.png'')
        \<lparr>root = provisioned_root, out = []\<rparr> = Inr (6, 5)"
    by (simp add: driver_defs transform_defs os_defs path_defs world_defs toy_defs)
  from C9_reduced_file_keeps_name[OF h1 h2, where t = empty_totals] h1 h2
  show ?thesis by blast
qed

text \<open>
  Claim C7, as the program has it. When the photos folder is a directory none of whose
  entries has a supported extension, \<open>main\<close> prints that no image files were found and
  the supported formats and returns before the provisioner runs: the filesystem is left
  as it was, so no backup or reduced directory is created.
\<close>

theorem C7_no_images_returns_before_provisioning:
  assumes "isdir (root w) (path_join script_dir ''photos'')"
    and "listdir (root w) (path_join script_dir ''photos'') = Inr names"
    and "\<forall>n\<in>set names. \<not> endswith_any (lower n) supported_formats"
  shows "main P script_dir w
     = Inr (w\<lparr>out := out w @ [NoImageFilesFound (path_join script_dir ''photos''),
                               SupportedFormats]\<rparr>)"
proof -
  from assms(1) have ex: "path_exists (root w) (path_join script_dir ''photos'')"
    by (auto simp: isdir_def path_exists_def split: option.splits)
  from assms(2,3) have "get_image_files (root w) (path_join script_dir ''photos'') = Inr []"
    by (simp add: get_image_files_def collect_images_none)
  with ex assms(1) show ?thesis
    by (simp add: main_def Let_def prints_def)
qed

text \<open>Claim C7, as the program has it, on an empty photos folder.\<close>

theorem C7_no_images_returns_before_provisioning_witness:
  "isdir empty_photos_root (path_join ''/app'' ''photos'')
   \<and> listdir empty_photos_root (path_join ''/app'' ''photos'') = Inr []
   \<and> main toy_pil ''/app'' \<lparr>root = empty_photos_root, out = []\<rparr>
       = Inr \<lparr>root = empty_photos_root,
              out = [NoImageFilesFound ''/app/photos'', SupportedFormats]\<rparr>"
proof -
  have h1: "isdir (root \<lparr>root = empty_photos_root, out = []\<rparr>) (path_join ''/app'' ''photos'')"
    by (simp add: os_defs path_defs world_defs)
  have h2: "listdir (root \<lparr>root = empty_photos_root, out = []\<rparr>) (path_join ''/app'' ''photos'')
              = Inr []"
    by (simp add: os_defs path_defs world_defs)
  have h3: "\<forall>n\<in>set []. \<not> endswith_any (lower n) supported_formats" by simp
  have j: "path_join ''/app'' ''photos'' = ''/app/photos''" by (simp add: path_defs)
  from C7_no_images_returns_before_provisioning[OF h1 h2 h3, where P = toy_pil] h1 h2
  show ?thesis by (simp add: j)
qed

text \<open>
  Claim C7 as it is written fails: after the run on an empty photos folder neither the
  backup nor the reduced directory exists.
\<close>

theorem C7_directories_not_created:
  "main toy_pil ''/app'' \<lparr>root = empty_photos_root, out = []\<rparr>
     = Inr \<lparr>root = empty_photos_root,
            out = [NoImageFilesFound ''/app/photos'', SupportedFormats]\<rparr>
   \<and> \<not> isdir empty_photos_root ''/app/backup''
   \<and> \<not> isdir empty_photos_root ''/app/reduced''"
  by (simp add: driver_defs scan_defs os_defs path_defs world_defs prints_def)

end
